theory Spec2Isabelle
  imports Main "HOL-Library.Sublist"
begin

section \<open>Strings of the Python library, as far as the program uses them\<close>

text \<open>
  A Python \<open>str\<close> is modelled as a \<open>string\<close>: a list of characters, each read as a code
  point below 256 (Latin-1). On these code points \<open>str.lower\<close> maps \<open>A..Z\<close> and the
  capital letters \<open>0xC0..0xDE\<close> (without the multiplication sign \<open>0xD7\<close>) to the code
  point 32 above, and leaves every other one alone.
\<close>

definition lower_char :: "char \<Rightarrow> char" where
  "lower_char c =
     (let n = (of_char c :: nat)
      in if (65 \<le> n \<and> n \<le> 90) \<or> (192 \<le> n \<and> n \<le> 222 \<and> n \<noteq> 215)
         then char_of (n + 32) else c)"

definition lower :: "string \<Rightarrow> string" where
  "lower s = map lower_char s"

text \<open>
  \<open>s.count(sub)\<close>: the number of non-overlapping occurrences of \<open>sub\<close> in \<open>s\<close>, found
  by a scan from the left that jumps over each occurrence it finds. The empty \<open>sub\<close>
  occurs between all characters, \<open>len(s) + 1\<close> times.
\<close>

fun count_sub :: "string \<Rightarrow> string \<Rightarrow> int" where
  "count_sub s [] = int (length s) + 1"
| "count_sub [] (k # ks) = 0"
| "count_sub (c # cs) (k # ks) =
     (if prefix (k # ks) (c # cs)
      then 1 + count_sub (drop (length (k # ks)) (c # cs)) (k # ks)
      else count_sub cs (k # ks))"

text \<open>
  \<open>s.rsplit(sep, 1)\<close> for a one-character separator: one split, at the last separator;
  the whole string alone when there is none.
\<close>

definition rsplit1 :: "char \<Rightarrow> string \<Rightarrow> string list" where
  "rsplit1 sep s =
     (let r = rev s; back = takeWhile (\<lambda>c. c \<noteq> sep) r; front = dropWhile (\<lambda>c. c \<noteq> sep) r
      in if front = [] then [s] else [rev (tl front), rev back])"

text \<open>\<open>s.endswith(suffix)\<close>.\<close>

definition endswith :: "string \<Rightarrow> string \<Rightarrow> bool" where
  "endswith s suf = suffix suf s"

text \<open>\<open>sep.join(xs)\<close>.\<close>

fun join :: "string \<Rightarrow> string list \<Rightarrow> string" where
  "join sep [] = []"
| "join sep [x] = x"
| "join sep (x # y # ys) = x @ sep @ join sep (y # ys)"

section \<open>Errors\<close>

text \<open>
  The exceptions of the built-in operations, and \<open>ReaderError\<close> for whatever PyPDF2 or
  python-docx raise on a file they cannot read.
\<close>

datatype error = ValueError | KeyError | IndexError | ReaderError

section \<open>Configuration\<close>

text \<open>\<open>ALLOWED_EXTENSIONS = {'pdf', 'docx'}\<close>\<close>

definition ALLOWED_EXTENSIONS :: "string set" where
  "ALLOWED_EXTENSIONS = {''pdf'', ''docx''}"

text \<open>
  A dict keeps its keys in insertion order, so it is an association list; the keys of a
  dict are distinct.
\<close>

type_synonym ('k, 'v) dict = "('k \<times> 'v) list"

definition SPORT_CATEGORIES :: "(string, string list) dict" where
  "SPORT_CATEGORIES =
    [(''Football'', [''football'', ''fifa'', ''goal'', ''kick'', ''soccer'', ''messi'', ''ronaldo'']),
     (''Cricket'', [''cricket'', ''bat'', ''ball'', ''wicket'', ''bowler'', ''batsman'', ''dhoni'', ''kohli'']),
     (''Basketball'', [''basketball'', ''nba'', ''hoop'', ''dribble'', ''slam dunk'', ''lebron'', ''curry'']),
     (''Tennis'', [''tennis'', ''grand slam'', ''wimbledon'', ''federer'', ''nadal'', ''djokovic'', ''serve'']),
     (''Hockey'', [''hockey'', ''stick'', ''puck'', ''ice'', ''nhl'', ''goalie'', ''rink''])]"

section \<open>allowed_file\<close>

text \<open>
  \<open>'.' in filename and filename.rsplit('.', 1)[1].lower() in ALLOWED_EXTENSIONS\<close>.
  The index 1 is read only when the first conjunct holds; a list too short for it would
  raise IndexError.
\<close>

definition allowed_file :: "string \<Rightarrow> error + bool" where
  "allowed_file filename =
     (if CHR ''.'' \<in> set filename
      then (case rsplit1 CHR ''.'' filename of
              [_, ext] \<Rightarrow> Inr (lower ext \<in> ALLOWED_EXTENSIONS)
            | _ \<Rightarrow> Inl IndexError)
      else Inr False)"

section \<open>categorize_text\<close>

text \<open>\<open>d[k]\<close>, raising KeyError on a missing key.\<close>

definition dict_getitem :: "('k, 'v) dict \<Rightarrow> 'k \<Rightarrow> error + 'v" where
  "dict_getitem d k = (case map_of d k of None \<Rightarrow> Inl KeyError | Some v \<Rightarrow> Inr v)"

text \<open>\<open>d[k] = v\<close>: an existing key keeps its place, a new one goes to the end.\<close>

fun dict_setitem :: "'k \<Rightarrow> 'v \<Rightarrow> ('k, 'v) dict \<Rightarrow> ('k, 'v) dict" where
  "dict_setitem k v [] = [(k, v)]"
| "dict_setitem k v ((k', v') # d) =
     (if k' = k then (k, v) # d else (k', v') # dict_setitem k v d)"

text \<open>\<open>scores = {sport: 0 for sport in SPORT_CATEGORIES}\<close>\<close>

definition init_scores :: "(string, string list) dict \<Rightarrow> (string, int) dict" where
  "init_scores table = fold (\<lambda>sport scores. dict_setitem sport 0 scores) (map fst table) []"

text \<open>
  The inner loop, \<open>for keyword in keywords: scores[sport] += text_lower.count(keyword)\<close>,
  and the outer loop over \<open>SPORT_CATEGORIES.items()\<close>. A KeyError of \<open>scores[sport]\<close>
  ends the loops.
\<close>

fun add_keywords :: "string \<Rightarrow> string \<Rightarrow> string list \<Rightarrow> (string, int) dict \<Rightarrow> error + (string, int) dict" where
  "add_keywords text_lower sport [] scores = Inr scores"
| "add_keywords text_lower sport (keyword # keywords) scores =
     (case dict_getitem scores sport of
        Inl e \<Rightarrow> Inl e
      | Inr v \<Rightarrow> add_keywords text_lower sport keywords
                  (dict_setitem sport (v + count_sub text_lower keyword) scores))"

fun add_categories :: "string \<Rightarrow> (string, string list) dict \<Rightarrow> (string, int) dict \<Rightarrow> error + (string, int) dict" where
  "add_categories text_lower [] scores = Inr scores"
| "add_categories text_lower ((sport, keywords) # rest) scores =
     (case add_keywords text_lower sport keywords scores of
        Inl e \<Rightarrow> Inl e
      | Inr scores' \<Rightarrow> add_categories text_lower rest scores')"

text \<open>
  \<open>max(scores, key=scores.get)\<close>: one pass over the keys in the dict's order that keeps the
  first key seen and replaces it only by a key whose value is strictly greater; ValueError
  on an empty dict. The keys come from \<open>scores\<close> itself, so each is read together with
  its value.
\<close>

fun max_scan :: "(string \<times> int) \<Rightarrow> (string, int) dict \<Rightarrow> (string \<times> int)" where
  "max_scan best [] = best"
| "max_scan best ((k, v) # rest) = max_scan (if v > snd best then (k, v) else best) rest"

definition max_key :: "(string, int) dict \<Rightarrow> error + string" where
  "max_key scores = (case scores of [] \<Rightarrow> Inl ValueError | kv # rest \<Rightarrow> Inr (fst (max_scan kv rest)))"

text \<open>
  The function over any keyword table, and \<open>categorize_text\<close> itself, which reads the
  module's table.
\<close>

definition classify :: "(string, string list) dict \<Rightarrow> string \<Rightarrow> error + string" where
  "classify table text =
     (let text_lower = lower text
      in case add_categories text_lower table (init_scores table) of
           Inl e \<Rightarrow> Inl e
         | Inr scores \<Rightarrow>
             (case max_key scores of
                Inl e \<Rightarrow> Inl e
              | Inr best_sport \<Rightarrow>
                  (case dict_getitem scores best_sport of
                     Inl e \<Rightarrow> Inl e
                   | Inr v \<Rightarrow> Inr (if v > 0 then best_sport else ''Unknown''))))"

definition categorize_text :: "string \<Rightarrow> error + string" where
  "categorize_text text = classify SPORT_CATEGORIES text"

text \<open>
  The total of a category: the occurrences of each of its keywords in the lower-cased text,
  added up. The loops of \<open>categorize_text\<close> leave it in \<open>scores\<close> (lemma \<open>scores_eq\<close>).
\<close>

definition keyword_total :: "string \<Rightarrow> string list \<Rightarrow> int" where
  "keyword_total text_lower keywords = sum_list (map (count_sub text_lower) keywords)"

section \<open>categorize_text, statement by statement on a state\<close>

text \<open>
  The variables that the body of \<open>categorize_text\<close> reads or writes, as the state a call
  runs in: the global \<open>SPORT_CATEGORIES\<close> of the module and the variables
  \<open>text_lower\<close>, \<open>scores\<close> and \<open>best_sport\<close> of the body. Python gives each call new
  variables for the body; here they keep what an earlier call has left in them, so a call
  may start with any values in them.
\<close>

record state =
  glob_SPORT_CATEGORIES :: "(string, string list) dict"
  var_text_lower :: string
  var_scores :: "(string, int) dict"
  var_best_sport :: string

text \<open>
  A statement changes the state and either completes (\<open>None\<close>) or raises; an exception
  leaves the state as it is at that point. \<open>seq\<close> runs a statement after another.
\<close>

type_synonym stmt = "state \<Rightarrow> error option \<times> state"

definition seq :: "stmt \<Rightarrow> stmt \<Rightarrow> stmt" where
  "seq first second s = (case first s of (None, s') \<Rightarrow> second s' | (Some e, s') \<Rightarrow> (Some e, s'))"

text \<open>\<open>text_lower = text.lower()\<close>\<close>

definition assign_text_lower :: "string \<Rightarrow> stmt" where
  "assign_text_lower text s = (None, s\<lparr>var_text_lower := lower text\<rparr>)"

text \<open>\<open>scores = {sport: 0 for sport in SPORT_CATEGORIES}\<close>\<close>

definition assign_scores :: stmt where
  "assign_scores s = (None, s\<lparr>var_scores := init_scores (glob_SPORT_CATEGORIES s)\<rparr>)"

text \<open>\<open>scores[sport] += text_lower.count(keyword)\<close>\<close>

definition add_count :: "string \<Rightarrow> string \<Rightarrow> stmt" where
  "add_count sport keyword s =
     (case dict_getitem (var_scores s) sport of
        Inl e \<Rightarrow> (Some e, s)
      | Inr v \<Rightarrow>
          (None, s\<lparr>var_scores :=
                     dict_setitem sport (v + count_sub (var_text_lower s) keyword) (var_scores s)\<rparr>))"

text \<open>
  \<open>for keyword in keywords\<close>, and \<open>for sport, keywords in SPORT_CATEGORIES.items()\<close>,
  which goes through the items that the global holds when the loop starts.
\<close>

fun for_keywords :: "string \<Rightarrow> string list \<Rightarrow> stmt" where
  "for_keywords sport [] s = (None, s)"
| "for_keywords sport (keyword # keywords) s =
     seq (add_count sport keyword) (for_keywords sport keywords) s"

fun for_categories :: "(string, string list) dict \<Rightarrow> stmt" where
  "for_categories [] s = (None, s)"
| "for_categories ((sport, keywords) # rest) s =
     seq (for_keywords sport keywords) (for_categories rest) s"

definition for_items :: stmt where
  "for_items s = for_categories (glob_SPORT_CATEGORIES s) s"

text \<open>\<open>best_sport = max(scores, key=scores.get)\<close>\<close>

definition assign_best_sport :: stmt where
  "assign_best_sport s =
     (case max_key (var_scores s) of
        Inl e \<Rightarrow> (Some e, s)
      | Inr k \<Rightarrow> (None, s\<lparr>var_best_sport := k\<rparr>))"

text \<open>\<open>return best_sport if scores[best_sport] > 0 else "Unknown"\<close>\<close>

definition return_value :: "state \<Rightarrow> error + string" where
  "return_value s =
     (case dict_getitem (var_scores s) (var_best_sport s) of
        Inl e \<Rightarrow> Inl e
      | Inr v \<Rightarrow> Inr (if v > 0 then var_best_sport s else ''Unknown''))"

text \<open>The body: the call returns its value or its exception, and the state it leaves.\<close>

definition categorize_text_body :: "string \<Rightarrow> state \<Rightarrow> (error + string) \<times> state" where
  "categorize_text_body text s =
     (case seq (assign_text_lower text) (seq assign_scores (seq for_items assign_best_sport)) s of
        (Some e, s') \<Rightarrow> (Inl e, s')
      | (None, s') \<Rightarrow> (return_value s', s'))"

section \<open>Text extraction\<close>

text \<open>
  \<open>extract_text_from_pdf\<close> runs over \<open>reader.pages\<close>; a page is given by what its
  \<open>extract_text()\<close> returns, a string or \<open>None\<close>. \<open>x or ""\<close> is the empty string when
  \<open>x\<close> is \<open>None\<close> or empty.
\<close>

definition or_empty :: "string option \<Rightarrow> string" where
  "or_empty x = (case x of None \<Rightarrow> [] | Some t \<Rightarrow> if t = [] then [] else t)"

definition extract_text_from_pdf :: "string option list \<Rightarrow> string" where
  "extract_text_from_pdf pages = fold (\<lambda>page text. text @ or_empty page) pages []"

text \<open>
  \<open>extract_text_from_docx\<close> joins \<open>para.text\<close> of the paragraphs of the document with a
  newline.
\<close>

definition extract_text_from_docx :: "string list \<Rightarrow> string" where
  "extract_text_from_docx paragraphs = join [CHR 0x0A] paragraphs"

section \<open>upload_file\<close>

text \<open>
  The request, as far as the handler reads it: \<open>request.method\<close> and
  \<open>request.files\<close>, the uploaded files by form field. An uploaded file has a name and a content; as a condition it is true when its
  name is not empty.
\<close>

datatype http_method = GET | POST

record 'b file_storage =
  filename :: string
  content :: 'b

record 'b request =
  request_method :: http_method
  files :: "(string, 'b file_storage) dict"

text \<open>
  The handler. Three things come from libraries and are parameters here:
  \<open>secure_filename\<close>, and the two readers, which turn the saved content into the pages of a
  PDF or the paragraphs of a DOCX or raise. The result is the category that the page shows:
  the template prints it only when it is neither \<open>None\<close> nor empty.
\<close>

definition render :: "string option \<Rightarrow> string option" where
  "render category = (case category of None \<Rightarrow> None | Some c \<Rightarrow> if c = [] then None else Some c)"

definition process_file ::
  "(string \<Rightarrow> string) \<Rightarrow> ('b \<Rightarrow> error + string option list) \<Rightarrow> ('b \<Rightarrow> error + string list)
     \<Rightarrow> 'b file_storage \<Rightarrow> error + string option" where
  "process_file secure_filename read_pdf read_docx file =
     (let name = secure_filename (filename file);
          extracted =
            (if endswith (lower name) ''.pdf''
             then (case read_pdf (content file) of
                     Inl e \<Rightarrow> Inl e
                   | Inr pages \<Rightarrow> Inr (None, extract_text_from_pdf pages))
             else if endswith (lower name) ''.docx''
             then (case read_docx (content file) of
                     Inl e \<Rightarrow> Inl e
                   | Inr paragraphs \<Rightarrow> Inr (None, extract_text_from_docx paragraphs))
             else Inr (Some ''Unsupported file type'', []))
      in case extracted of
           Inl e \<Rightarrow> Inl e
         | Inr (category, file_text) \<Rightarrow>
             if file_text \<noteq> []
             then (case categorize_text file_text of Inl e \<Rightarrow> Inl e | Inr c \<Rightarrow> Inr (Some c))
             else Inr category)"

definition upload_file ::
  "(string \<Rightarrow> string) \<Rightarrow> ('b \<Rightarrow> error + string option list) \<Rightarrow> ('b \<Rightarrow> error + string list)
     \<Rightarrow> 'b request \<Rightarrow> error + string option" where
  "upload_file secure_filename read_pdf read_docx req =
     (case (if request_method req = POST
            then (case map_of (files req) ''file'' of
                    None \<Rightarrow> Inr (Some ''No file part'')
                  | Some file \<Rightarrow>
                      if filename file = [] then Inr (Some ''No selected file'')
                      else if filename file \<noteq> []
                      then (case allowed_file (filename file) of
                              Inl e \<Rightarrow> Inl e
                            | Inr allowed \<Rightarrow>
                                if allowed
                                then process_file secure_filename read_pdf read_docx file
                                else Inr None)
                      else Inr None)
            else Inr None) of
        Inl e \<Rightarrow> Inl e
      | Inr category \<Rightarrow> Inr (render category))"

section \<open>The scores that the loops compute\<close>

lemma count_sub_nonneg: "0 \<le> count_sub s sub"
  by (induction s sub rule: count_sub.induct) auto

lemma keyword_total_nonneg: "0 \<le> keyword_total t kws"
  unfolding keyword_total_def by (induction kws) (auto simp: count_sub_nonneg)

lemma dict_setitem_fresh: "k \<notin> fst ` set d \<Longrightarrow> dict_setitem k v d = d @ [(k, v)]"
  by (induction d) auto

lemma dict_setitem_mid:
  "k \<notin> fst ` set d \<Longrightarrow> dict_setitem k v (d @ (k, w) # e) = d @ (k, v) # e"
  by (induction d) auto

lemma dict_getitem_mid: "k \<notin> fst ` set d \<Longrightarrow> dict_getitem (d @ (k, w) # e) k = Inr w"
  by (induction d) (auto simp: dict_getitem_def)

lemma init_scores_fold:
  "distinct ks \<Longrightarrow> set ks \<inter> fst ` set acc = {} \<Longrightarrow>
   fold (\<lambda>sport scores. dict_setitem sport (0::int) scores) ks acc = acc @ map (\<lambda>s. (s, 0)) ks"
proof (induction ks arbitrary: acc)
  case Nil
  then show ?case by simp
next
  case (Cons k ks)
  from Cons.prems have fresh: "k \<notin> fst ` set acc" by auto
  from Cons.prems have "set ks \<inter> fst ` set (acc @ [(k, 0::int)]) = {}" by auto
  with Cons.IH [of "acc @ [(k, 0)]"] Cons.prems fresh show ?case
    by (simp add: dict_setitem_fresh)
qed

lemma init_scores_eq:
  "distinct (map fst table) \<Longrightarrow> init_scores table = map (\<lambda>(s, kws). (s, 0)) table"
  unfolding init_scores_def
  by (simp add: init_scores_fold comp_def case_prod_beta)

lemma add_keywords_mid:
  "sport \<notin> fst ` set d \<Longrightarrow>
   add_keywords t sport kws (d @ (sport, v) # e) = Inr (d @ (sport, v + keyword_total t kws) # e)"
proof (induction kws arbitrary: v)
  case Nil
  then show ?case by (simp add: keyword_total_def)
next
  case (Cons kw kws)
  then show ?case
    by (simp add: dict_getitem_mid dict_setitem_mid keyword_total_def add.assoc)
qed

lemma add_categories_eq:
  "distinct (map fst rest) \<Longrightarrow> fst ` set rest \<inter> fst ` set d = {} \<Longrightarrow>
   add_categories t rest (d @ map (\<lambda>(s, kws). (s, 0)) rest)
     = Inr (d @ map (\<lambda>(s, kws). (s, keyword_total t kws)) rest)"
proof (induction rest arbitrary: d)
  case Nil
  then show ?case by simp
next
  case (Cons p rest)
  obtain sport kws where p: "p = (sport, kws)" by (cases p)
  from Cons.prems p have fresh: "sport \<notin> fst ` set d" by auto
  from Cons.prems p have d1: "distinct (map fst rest)" by simp
  from Cons.prems p have d2: "fst ` set rest \<inter> fst ` set (d @ [(sport, keyword_total t kws)]) = {}"
    by auto
  from Cons.IH [OF d1 d2] fresh p show ?case
    by (simp add: add_keywords_mid)
qed

lemma scores_eq:
  "distinct (map fst table) \<Longrightarrow>
   add_categories t table (init_scores table) = Inr (map (\<lambda>(s, kws). (s, keyword_total t kws)) table)"
  using add_categories_eq [of table "[]" t] by (simp add: init_scores_eq)

lemma max_scan_keep: "\<forall>kv \<in> set rest. snd kv \<le> snd best \<Longrightarrow> max_scan best rest = best"
  by (induction rest arbitrary: best) auto

lemma max_scan_first:
  "\<forall>kv \<in> set pre. snd kv < v \<Longrightarrow> snd best < v \<Longrightarrow> \<forall>kv \<in> set post. snd kv \<le> v \<Longrightarrow>
   max_scan best (pre @ (k, v) # post) = (k, v)"
proof (induction pre arbitrary: best)
  case Nil
  then show ?case by (simp add: max_scan_keep)
next
  case (Cons p pre)
  obtain k' v' where p: "p = (k', v')" by (cases p)
  with Cons.prems have "snd (if v' > snd best then (k', v') else best) < v" by auto
  with Cons.IH [of "if v' > snd best then (k', v') else best"] Cons.prems p show ?case
    by simp
qed

lemma max_key_first:
  "\<forall>kv \<in> set pre. snd kv < v \<Longrightarrow> \<forall>kv \<in> set post. snd kv \<le> v \<Longrightarrow>
   max_key (pre @ (k, v) # post) = Inr k"
proof (cases pre)
  case Nil
  assume "\<forall>kv \<in> set post. snd kv \<le> v"
  with Nil show ?thesis by (simp add: max_key_def max_scan_keep)
next
  case (Cons p ps)
  assume "\<forall>kv \<in> set pre. snd kv < v" "\<forall>kv \<in> set post. snd kv \<le> v"
  with Cons max_scan_first [of ps v p post k] show ?thesis
    by (simp add: max_key_def)
qed

lemma classify_first_max:
  assumes tab: "table = pre @ (A, kws) # post"
    and dist: "distinct (map fst table)"
    and before: "\<forall>(B, kb) \<in> set pre. keyword_total (lower text) kb < keyword_total (lower text) kws"
    and after: "\<forall>(B, kb) \<in> set post. keyword_total (lower text) kb \<le> keyword_total (lower text) kws"
  shows "classify table text =
           Inr (if keyword_total (lower text) kws > 0 then A else ''Unknown'')"
proof -
  let ?t = "lower text"
  let ?sc = "\<lambda>(s, kws). (s, keyword_total ?t kws)"
  have sc: "add_categories ?t table (init_scores table) = Inr (map ?sc table)"
    using dist by (rule scores_eq)
  have split: "map ?sc table = map ?sc pre @ (A, keyword_total ?t kws) # map ?sc post"
    using tab by simp
  have mk: "max_key (map ?sc table) = Inr A"
    unfolding split using before after by (intro max_key_first) auto
  from dist tab have "A \<notin> fst ` set (map ?sc pre)" by (auto simp: image_iff)
  then have get: "dict_getitem (map ?sc table) A = Inr (keyword_total ?t kws)"
    unfolding split by (rule dict_getitem_mid)
  show ?thesis
    unfolding classify_def Let_def sc by (simp add: mk get)
qed

lemma SPORT_CATEGORIES_distinct: "distinct (map fst SPORT_CATEGORIES)"
  by (simp add: SPORT_CATEGORIES_def)


section \<open>Properties of categorize_text\<close>

text \<open>
  Claim C2. When several categories share the greatest score and it is not zero,
  \<open>categorize_text\<close> returns the one that comes first in the table: the category \<open>A\<close>
  such that every category before it in \<open>SPORT_CATEGORIES\<close> has a strictly smaller total
  and no category after it has a greater one. This is what the scan \<open>max_scan\<close> yields,
  which gives up its current best only for a strictly greater value.
\<close>

theorem categorize_text_tie_first:
  assumes "SPORT_CATEGORIES = pre @ (A, kws) # post"
    and "\<forall>(B, kb) \<in> set pre. keyword_total (lower text) kb < keyword_total (lower text) kws"
    and "\<forall>(B, kb) \<in> set post. keyword_total (lower text) kb \<le> keyword_total (lower text) kws"
    and "0 < keyword_total (lower text) kws"
  shows "categorize_text text = Inr A"
  unfolding categorize_text_def
  using classify_first_max [OF assms(1) SPORT_CATEGORIES_distinct assms(2) assms(3)] assms(4)
  by simp

theorem categorize_text_tie_first_witness:
  "categorize_text ''The NBA star will serve'' = Inr ''Basketball'' \<and>
   keyword_total (lower ''The NBA star will serve'') (snd (SPORT_CATEGORIES ! 2)) = 1 \<and>
   keyword_total (lower ''The NBA star will serve'') (snd (SPORT_CATEGORIES ! 3)) = 1"
proof -
  let ?t = "''The NBA star will serve''"
  let ?kws = "[''basketball'', ''nba'', ''hoop'', ''dribble'', ''slam dunk'', ''lebron'', ''curry'']"
  let ?pre = "take 2 SPORT_CATEGORIES"
  let ?post = "drop 3 SPORT_CATEGORIES"
  have a: "SPORT_CATEGORIES = ?pre @ (''Basketball'', ?kws) # ?post"
    by (simp add: SPORT_CATEGORIES_def)
  have b: "\<forall>(B, kb) \<in> set ?pre. keyword_total (lower ?t) kb < keyword_total (lower ?t) ?kws"
    by code_simp
  have c: "\<forall>(B, kb) \<in> set ?post. keyword_total (lower ?t) kb \<le> keyword_total (lower ?t) ?kws"
    by code_simp
  have d: "0 < keyword_total (lower ?t) ?kws"
    by code_simp
  have e: "keyword_total (lower ?t) (snd (SPORT_CATEGORIES ! 2)) = 1"
    by code_simp
  have f: "keyword_total (lower ?t) (snd (SPORT_CATEGORIES ! 3)) = 1"
    by code_simp
  from categorize_text_tie_first [OF a b c d] e f show ?thesis by simp
qed

text \<open>
  Claim C1. When the total of one category \<open>A\<close> is strictly greater than the total of every
  other category, \<open>categorize_text\<close> returns \<open>A\<close>, and it does so for every text that has
  the same lower-casing, that is, however the letters of the text are cased.
\<close>

theorem categorize_text_dominant:
  assumes "(A, kws) \<in> set SPORT_CATEGORIES"
    and "\<forall>(B, kb) \<in> set SPORT_CATEGORIES. B \<noteq> A \<longrightarrow>
           keyword_total (lower text) kb < keyword_total (lower text) kws"
    and "lower text' = lower text"
  shows "categorize_text text' = Inr A"
proof -
  let ?t = "lower text"
  from assms(1) obtain pre post where tab: "SPORT_CATEGORIES = pre @ (A, kws) # post"
    by (auto simp: in_set_conv_decomp)
  have "distinct (map fst (pre @ (A, kws) # post))"
    using SPORT_CATEGORIES_distinct unfolding tab .
  then have other: "B \<noteq> A" if "(B, kb) \<in> set pre \<union> set post" for B kb
    using that by (auto simp: image_iff)
  have less: "keyword_total ?t kb < keyword_total ?t kws" if "(B, kb) \<in> set pre \<union> set post" for B kb
  proof -
    from that have "(B, kb) \<in> set SPORT_CATEGORIES" by (subst tab) auto
    with assms(2) other [OF that] show ?thesis by auto
  qed
  have "length SPORT_CATEGORIES = 5" by (simp add: SPORT_CATEGORIES_def)
  then have "pre \<noteq> [] \<or> post \<noteq> []" unfolding tab by auto
  then obtain B kb where "(B, kb) \<in> set pre \<union> set post"
    by (cases pre; cases post) auto
  from less [OF this] keyword_total_nonneg [of ?t kb] have pos: "0 < keyword_total ?t kws"
    by simp
  have before: "\<forall>(B, kb) \<in> set pre. keyword_total ?t kb < keyword_total ?t kws"
    using less by auto
  have after: "\<forall>(B, kb) \<in> set post. keyword_total ?t kb \<le> keyword_total ?t kws"
    using less by (auto intro: less_imp_le)
  from classify_first_max [OF tab SPORT_CATEGORIES_distinct, of "text"] before after pos
  have "classify SPORT_CATEGORIES text = Inr A" by simp
  moreover have "classify SPORT_CATEGORIES text' = classify SPORT_CATEGORIES text"
    unfolding classify_def using assms(3) by simp
  ultimately show ?thesis by (simp add: categorize_text_def)
qed

theorem categorize_text_dominant_witness:
  "lower ''WIMBLEDON: Federer to SERVE; kick-off later'' = lower ''wimbledon: federer to serve; kick-off later'' \<and>
   categorize_text ''WIMBLEDON: Federer to SERVE; kick-off later'' = Inr ''Tennis''"
proof -
  let ?t = "''wimbledon: federer to serve; kick-off later''"
  let ?t' = "''WIMBLEDON: Federer to SERVE; kick-off later''"
  let ?kws = "[''tennis'', ''grand slam'', ''wimbledon'', ''federer'', ''nadal'', ''djokovic'', ''serve'']"
  have a: "(''Tennis'', ?kws) \<in> set SPORT_CATEGORIES"
    by (simp add: SPORT_CATEGORIES_def)
  have b: "\<forall>(B, kb) \<in> set SPORT_CATEGORIES. B \<noteq> ''Tennis'' \<longrightarrow>
             keyword_total (lower ?t) kb < keyword_total (lower ?t) ?kws"
    by code_simp
  have c: "lower ?t' = lower ?t"
    by code_simp
  from categorize_text_dominant [OF a b c] c show ?thesis by simp
qed

text \<open>
  Claim C3. A text in which, once lower-cased, no keyword of any category occurs is
  classified as \<open>Unknown\<close>; the empty text is such a text.
\<close>

theorem categorize_text_unknown:
  "((\<forall>(sport, kws) \<in> set SPORT_CATEGORIES. \<forall>kw \<in> set kws. count_sub (lower text) kw = 0)
      \<longrightarrow> categorize_text text = Inr ''Unknown'')
   \<and> categorize_text [] = Inr ''Unknown''"
proof
  show "(\<forall>(sport, kws) \<in> set SPORT_CATEGORIES. \<forall>kw \<in> set kws. count_sub (lower text) kw = 0)
          \<longrightarrow> categorize_text text = Inr ''Unknown''"
  proof
    assume none: "\<forall>(sport, kws) \<in> set SPORT_CATEGORIES. \<forall>kw \<in> set kws. count_sub (lower text) kw = 0"
    have zero: "keyword_total (lower text) kws = 0" if "(sport, kws) \<in> set SPORT_CATEGORIES" for sport kws
    proof -
      from none that have "\<forall>kw \<in> set kws. count_sub (lower text) kw = 0" by auto
      then show ?thesis
        unfolding keyword_total_def by (induction kws) auto
    qed
    obtain A kws post where tab: "SPORT_CATEGORIES = [] @ (A, kws) # post"
      by (simp add: SPORT_CATEGORIES_def)
    have "(A, kws) \<in> set SPORT_CATEGORIES"
      by (subst tab) simp
    then have first: "keyword_total (lower text) kws = 0"
      by (rule zero)
    have "keyword_total (lower text) kb = 0" if "(B, kb) \<in> set post" for B kb
    proof -
      from that have "(B, kb) \<in> set SPORT_CATEGORIES" by (subst tab) simp
      then show ?thesis by (rule zero)
    qed
    with first
    have "\<forall>(B, kb) \<in> set post. keyword_total (lower text) kb \<le> keyword_total (lower text) kws"
      by auto
    with first show "categorize_text text = Inr ''Unknown''"
      unfolding categorize_text_def
      using classify_first_max [OF tab SPORT_CATEGORIES_distinct, of "text"] by simp
  qed
  show "categorize_text [] = Inr ''Unknown''"
    by code_simp
qed

theorem categorize_text_unknown_witness:
  "concat (map (\<lambda>(sport, kws). map (count_sub (lower ''Annual Report 2024'')) kws) SPORT_CATEGORIES)
     = replicate 36 0
   \<and> categorize_text ''Annual Report 2024'' = Inr ''Unknown''"
proof -
  have counts: "concat (map (\<lambda>(sport, kws). map (count_sub (lower ''Annual Report 2024'')) kws) SPORT_CATEGORIES)
     = replicate 36 0"
    by code_simp
  have h: "\<forall>(sport, kws) \<in> set SPORT_CATEGORIES. \<forall>kw \<in> set kws. count_sub (lower ''Annual Report 2024'') kw = 0"
    by code_simp
  from categorize_text_unknown [of "''Annual Report 2024''"] h counts show ?thesis by blast
qed

text \<open>
  Claim C8. The text \<open>Messi scored a great goal in the FIFA match\<close> is classified as
  \<open>Football\<close>: the keywords messi, goal and fifa occur once each, which gives Football
  the total 3, and every other category has the total 0.
\<close>

theorem categorize_text_messi:
  "categorize_text ''Messi scored a great goal in the FIFA match'' = Inr ''Football''
   \<and> count_sub (lower ''Messi scored a great goal in the FIFA match'') ''messi'' = 1
   \<and> count_sub (lower ''Messi scored a great goal in the FIFA match'') ''goal'' = 1
   \<and> count_sub (lower ''Messi scored a great goal in the FIFA match'') ''fifa'' = 1
   \<and> map (\<lambda>(sport, kws). keyword_total (lower ''Messi scored a great goal in the FIFA match'') kws)
        SPORT_CATEGORIES = [3, 0, 0, 0, 0]"
  by code_simp

text \<open>
  Claim C10. The one-word text \<open>basketball\<close> is classified as \<open>Cricket\<close>: the Cricket
  keyword ball occurs inside it, Cricket and Basketball both have the total 1, and Cricket
  stands before Basketball in the table.
\<close>

theorem categorize_text_basketball:
  "categorize_text ''basketball'' = Inr ''Cricket''
   \<and> count_sub (lower ''basketball'') ''ball'' = 1
   \<and> map (\<lambda>(sport, kws). keyword_total (lower ''basketball'') kws) SPORT_CATEGORIES = [0, 1, 1, 0, 0]
   \<and> map fst SPORT_CATEGORIES = [''Football'', ''Cricket'', ''Basketball'', ''Tennis'', ''Hockey'']"
  by code_simp

section \<open>Occurrences inside longer words\<close>










section \<open>Properties of allowed_file\<close>

lemma rsplit1_last:
  "sep \<notin> set ext \<Longrightarrow> rsplit1 sep (stem @ sep # ext) = [stem, ext]"
proof -
  let ?P = "\<lambda>c. c \<noteq> sep"
  assume a: "sep \<notin> set ext"
  have "takeWhile ?P (rev ext @ sep # rev stem) = rev ext @ takeWhile ?P (sep # rev stem)"
    by (rule takeWhile_append2) (use a in auto)
  moreover
  have "dropWhile ?P (rev ext @ sep # rev stem) = dropWhile ?P (sep # rev stem)"
    by (rule dropWhile_append2) (use a in auto)
  ultimately show ?thesis by (simp add: rsplit1_def Let_def)
qed

lemma rsplit1_decomp:
  "sep \<in> set s \<Longrightarrow> \<exists>stem ext. s = stem @ sep # ext \<and> sep \<notin> set ext"
  by (rule split_list_last)

text \<open>
  Claim C5. \<open>allowed_file\<close> accepts a name exactly when the name has a dot and what
  follows its last dot is, lower-cased, \<open>pdf\<close> or \<open>docx\<close>. It accepts \<open>report.PDF\<close> and
  rejects \<open>report\<close> and \<open>image.png\<close>. It never raises.
\<close>

theorem allowed_file_iff:
  "allowed_file name =
     Inr (\<exists>stem ext. name = stem @ CHR ''.'' # ext \<and> CHR ''.'' \<notin> set ext
            \<and> (lower ext = ''pdf'' \<or> lower ext = ''docx''))
   \<and> allowed_file ''report.PDF'' = Inr True
   \<and> allowed_file ''report'' = Inr False
   \<and> allowed_file ''image.png'' = Inr False"
proof (intro conjI)
  show "allowed_file name =
     Inr (\<exists>stem ext. name = stem @ CHR ''.'' # ext \<and> CHR ''.'' \<notin> set ext
            \<and> (lower ext = ''pdf'' \<or> lower ext = ''docx''))"
  proof (cases "CHR ''.'' \<in> set name")
    case False
    then have "\<not> (\<exists>stem ext. name = stem @ CHR ''.'' # ext)" by auto
    with False show ?thesis by (auto simp: allowed_file_def)
  next
    case True
    from rsplit1_decomp [OF True]
    obtain stem ext where d: "name = stem @ CHR ''.'' # ext" "CHR ''.'' \<notin> set ext"
      by (elim exE conjE)
    have uniq: "stem' = stem \<and> ext' = ext"
      if "name = stem' @ CHR ''.'' # ext'" "CHR ''.'' \<notin> set ext'" for stem' ext'
    proof -
      have "rsplit1 CHR ''.'' name = [stem', ext']"
        unfolding that(1) using that(2) by (rule rsplit1_last)
      moreover have "rsplit1 CHR ''.'' name = [stem, ext]"
        unfolding d(1) using d(2) by (rule rsplit1_last)
      ultimately show ?thesis by simp
    qed
    have "(\<exists>stem' ext'. name = stem' @ CHR ''.'' # ext' \<and> CHR ''.'' \<notin> set ext'
            \<and> (lower ext' = ''pdf'' \<or> lower ext' = ''docx''))
          \<longleftrightarrow> (lower ext = ''pdf'' \<or> lower ext = ''docx'')"
      using d uniq by blast
    moreover have "rsplit1 CHR ''.'' name = [stem, ext]"
      unfolding d(1) using d(2) by (rule rsplit1_last)
    with True have "allowed_file name = Inr (lower ext = ''pdf'' \<or> lower ext = ''docx'')"
      by (simp add: allowed_file_def ALLOWED_EXTENSIONS_def)
    ultimately show ?thesis by simp
  qed
  show "allowed_file ''report.PDF'' = Inr True" by code_simp
  show "allowed_file ''report'' = Inr False" by code_simp
  show "allowed_file ''image.png'' = Inr False" by code_simp
qed

section \<open>Properties of the extraction\<close>

lemma extract_pdf_fold:
  "fold (\<lambda>page text. text @ or_empty page) pages acc = acc @ concat (map or_empty pages)"
  by (induction pages arbitrary: acc) auto

lemma join_Cons: "join sep (p # ps) = p @ concat (map (\<lambda>q. sep @ q) ps)"
  by (induction ps arbitrary: p) auto

text \<open>
  Claim C7. The text of a PDF is the texts of its pages, in page order, with nothing
  between them; a page without text adds nothing and does not stop the extraction. The
  text of a DOCX is its paragraphs in order, with one newline before each paragraph but
  the first.
\<close>

theorem extract_text_in_order:
  "extract_text_from_pdf pages = concat (map or_empty pages)
   \<and> extract_text_from_pdf (map Some texts) = concat texts
   \<and> extract_text_from_pdf (before @ None # after) = extract_text_from_pdf (before @ after)
   \<and> extract_text_from_docx [] = []
   \<and> extract_text_from_docx (p # ps) = p @ concat (map (\<lambda>q. CHR 0x0A # q) ps)"
proof (intro conjI)
  show pdf: "extract_text_from_pdf pages = concat (map or_empty pages)" for pages
    by (simp add: extract_text_from_pdf_def extract_pdf_fold)
  have "map or_empty (map Some texts) = texts"
    by (induction texts) (auto simp: or_empty_def)
  then show "extract_text_from_pdf (map Some texts) = concat texts"
    by (simp only: pdf)
  have "or_empty None = []" by (simp add: or_empty_def)
  then show "extract_text_from_pdf (before @ None # after) = extract_text_from_pdf (before @ after)"
    by (simp add: pdf)
  show "extract_text_from_docx [] = []"
    by (simp add: extract_text_from_docx_def)
  show "extract_text_from_docx (p # ps) = p @ concat (map (\<lambda>q. CHR 0x0A # q) ps)"
    by (simp add: extract_text_from_docx_def join_Cons)
qed

section \<open>Repeated calls\<close>

text \<open>
  The statements of the body agree with the loops of \<open>classify\<close>: they change nothing but
  \<open>scores\<close>, and complete or raise as \<open>add_keywords\<close> and \<open>add_categories\<close> do.
\<close>

lemma for_keywords_run:
  "\<exists>sc. for_keywords sport kws s =
          ((case add_keywords (var_text_lower s) sport kws (var_scores s) of
              Inl e \<Rightarrow> Some e | Inr _ \<Rightarrow> None), s\<lparr>var_scores := sc\<rparr>)
        \<and> (\<forall>sc'. add_keywords (var_text_lower s) sport kws (var_scores s) = Inr sc' \<longrightarrow> sc = sc')"
proof (induction kws arbitrary: s)
  case Nil
  have "s = s\<lparr>var_scores := var_scores s\<rparr>" by simp
  then show ?case by (intro exI [of _ "var_scores s"]) simp
next
  case (Cons kw kws)
  show ?case
  proof (cases "dict_getitem (var_scores s) sport")
    case (Inl e)
    then show ?thesis
      by (intro exI [of _ "var_scores s"]) (simp add: seq_def add_count_def)
  next
    case (Inr v)
    let ?s1 = "s\<lparr>var_scores := dict_setitem sport (v + count_sub (var_text_lower s) kw) (var_scores s)\<rparr>"
    from Cons.IH [of ?s1] obtain sc where
      run: "for_keywords sport kws ?s1 =
          ((case add_keywords (var_text_lower ?s1) sport kws (var_scores ?s1) of
              Inl e \<Rightarrow> Some e | Inr _ \<Rightarrow> None), ?s1\<lparr>var_scores := sc\<rparr>)"
      and res: "\<forall>sc'. add_keywords (var_text_lower ?s1) sport kws (var_scores ?s1) = Inr sc' \<longrightarrow> sc = sc'"
      by blast
    have step: "for_keywords sport (kw # kws) s = for_keywords sport kws ?s1"
      using Inr by (simp add: seq_def add_count_def)
    show ?thesis
      unfolding step run using Inr res
      by (intro exI [of _ sc]) (simp split: sum.splits)
  qed
qed

lemma for_categories_run:
  "\<exists>sc. for_categories table s =
          ((case add_categories (var_text_lower s) table (var_scores s) of
              Inl e \<Rightarrow> Some e | Inr _ \<Rightarrow> None), s\<lparr>var_scores := sc\<rparr>)
        \<and> (\<forall>sc'. add_categories (var_text_lower s) table (var_scores s) = Inr sc' \<longrightarrow> sc = sc')"
proof (induction table arbitrary: s)
  case Nil
  have "s = s\<lparr>var_scores := var_scores s\<rparr>" by simp
  then show ?case by (intro exI [of _ "var_scores s"]) simp
next
  case (Cons p table)
  obtain sport kws where p: "p = (sport, kws)" by (cases p)
  from for_keywords_run [of sport kws s] obtain sc1 where
    run1: "for_keywords sport kws s =
          ((case add_keywords (var_text_lower s) sport kws (var_scores s) of
              Inl e \<Rightarrow> Some e | Inr _ \<Rightarrow> None), s\<lparr>var_scores := sc1\<rparr>)"
    and res1: "\<forall>sc'. add_keywords (var_text_lower s) sport kws (var_scores s) = Inr sc' \<longrightarrow> sc1 = sc'"
    by blast
  show ?case
  proof (cases "add_keywords (var_text_lower s) sport kws (var_scores s)")
    case (Inl e)
    with run1 show ?thesis
      unfolding p by (intro exI [of _ sc1]) (simp add: seq_def)
  next
    case (Inr sc')
    with res1 have sc1: "sc1 = sc'" by simp
    let ?s1 = "s\<lparr>var_scores := sc'\<rparr>"
    from Cons.IH [of ?s1] obtain sc where
      run: "for_categories table ?s1 =
          ((case add_categories (var_text_lower ?s1) table (var_scores ?s1) of
              Inl e \<Rightarrow> Some e | Inr _ \<Rightarrow> None), ?s1\<lparr>var_scores := sc\<rparr>)"
      and res: "\<forall>sc''. add_categories (var_text_lower ?s1) table (var_scores ?s1) = Inr sc'' \<longrightarrow> sc = sc''"
      by blast
    have step: "for_categories (p # table) s = for_categories table ?s1"
      unfolding p using run1 Inr sc1 by (simp add: seq_def)
    show ?thesis
      unfolding step run using Inr res
      unfolding p by (intro exI [of _ sc]) simp
  qed
qed

lemma categorize_text_body_run:
  "fst (categorize_text_body text s) = classify (glob_SPORT_CATEGORIES s) text
   \<and> glob_SPORT_CATEGORIES (snd (categorize_text_body text s)) = glob_SPORT_CATEGORIES s"
proof -
  let ?g = "glob_SPORT_CATEGORIES s"
  let ?s2 = "s\<lparr>var_text_lower := lower text, var_scores := init_scores ?g\<rparr>"
  from for_categories_run [of ?g ?s2] obtain sc where
    run: "for_categories ?g ?s2 =
          ((case add_categories (lower text) ?g (init_scores ?g) of
              Inl e \<Rightarrow> Some e | Inr _ \<Rightarrow> None), ?s2\<lparr>var_scores := sc\<rparr>)"
    and res: "\<forall>sc'. add_categories (lower text) ?g (init_scores ?g) = Inr sc' \<longrightarrow> sc = sc'"
    by auto
  have start: "seq (assign_text_lower text) (seq assign_scores (seq for_items assign_best_sport)) s
      = (case for_categories ?g ?s2 of (None, s') \<Rightarrow> assign_best_sport s' | (Some e, s') \<Rightarrow> (Some e, s'))"
    by (simp add: seq_def assign_text_lower_def assign_scores_def for_items_def)
  show ?thesis
  proof (cases "add_categories (lower text) ?g (init_scores ?g)")
    case (Inl e)
    then show ?thesis
      unfolding categorize_text_body_def start run
      by (simp add: classify_def)
  next
    case (Inr sc')
    with res have "sc = sc'" by simp
    with Inr show ?thesis
      unfolding categorize_text_body_def start run
      by (simp add: classify_def assign_best_sport_def return_value_def split: sum.splits)
  qed
qed

text \<open>
  A call does change the state: it leaves its own values in the variables of the body.
\<close>

lemma state_changes:
  "snd (categorize_text_body ''goal''
         \<lparr>glob_SPORT_CATEGORIES = SPORT_CATEGORIES, var_text_lower = [], var_scores = [],
          var_best_sport = []\<rparr>)
   = \<lparr>glob_SPORT_CATEGORIES = SPORT_CATEGORIES, var_text_lower = ''goal'',
      var_scores = [(''Football'', 1), (''Cricket'', 0), (''Basketball'', 0), (''Tennis'', 0), (''Hockey'', 0)],
      var_best_sport = ''Football''\<rparr>"
  by code_simp

text \<open>
  Claim C9. Two calls of \<open>categorize_text\<close> with the same text, one after the other,
  return the same label or raise the same exception, although the second call starts in
  the state that the first one has left: every variable of the body is assigned before
  it is read, and no statement assigns the global table, which both calls leave as they
  found it. The label is the one that \<open>classify\<close> computes from the text and the table.
\<close>

theorem categorize_text_body_twice:
  "(let (label1, s1) = categorize_text_body text s;
        (label2, s2) = categorize_text_body text s1
    in label1 = label2
       \<and> glob_SPORT_CATEGORIES s1 = glob_SPORT_CATEGORIES s
       \<and> glob_SPORT_CATEGORIES s2 = glob_SPORT_CATEGORIES s
       \<and> label1 = classify (glob_SPORT_CATEGORIES s) text)
   \<and> fst (categorize_text_body text (s\<lparr>glob_SPORT_CATEGORIES := SPORT_CATEGORIES\<rparr>))
       = categorize_text text"
proof -
  obtain label1 s1 where c1: "categorize_text_body text s = (label1, s1)"
    by (cases "categorize_text_body text s")
  obtain label2 s2 where c2: "categorize_text_body text s1 = (label2, s2)"
    by (cases "categorize_text_body text s1")
  from categorize_text_body_run [of "text" s] c1
  have one: "label1 = classify (glob_SPORT_CATEGORIES s) text"
    "glob_SPORT_CATEGORIES s1 = glob_SPORT_CATEGORIES s" by simp_all
  from categorize_text_body_run [of "text" s1] c2
  have two: "label2 = classify (glob_SPORT_CATEGORIES s1) text"
    "glob_SPORT_CATEGORIES s2 = glob_SPORT_CATEGORIES s1" by simp_all
  have three: "fst (categorize_text_body text (s\<lparr>glob_SPORT_CATEGORIES := SPORT_CATEGORIES\<rparr>))
       = categorize_text text"
    using categorize_text_body_run [of "text" "s\<lparr>glob_SPORT_CATEGORIES := SPORT_CATEGORIES\<rparr>"]
    by (simp add: categorize_text_def)
  from one two three show ?thesis
    by (simp add: c1 c2)
qed

section \<open>The labels of upload_file\<close>

text \<open>
  The label \<open>Unsupported file type\<close> is reached only by a name that \<open>allowed_file\<close>
  accepts and that has lost its extension by \<open>secure_filename\<close>, such as \<open>.pdf\<close> when
  the leading dot is stripped.
\<close>

lemma upload_file_unsupported_reached:
  "upload_file (\<lambda>name. ''pdf'') read_pdf read_docx
     \<lparr>request_method = POST, files = [(''file'', \<lparr>filename = ''.pdf'', content = c\<rparr>)]\<rparr>
     = Inr (Some ''Unsupported file type'')"
proof -
  have "allowed_file ''.pdf'' = Inr True" by code_simp
  moreover have "\<not> endswith (lower ''pdf'') ''.pdf''" "\<not> endswith (lower ''pdf'') ''.docx''"
    by code_simp+
  ultimately show ?thesis
    by (simp add: upload_file_def process_file_def render_def)
qed

text \<open>
  Claim C6. A request without the form field gets the label \<open>No file part\<close> and a file
  with an empty name gets \<open>No selected file\<close>, but a file with a disallowed extension,
  \<open>image.png\<close>, gets no label at all: the handler has no branch for a name that
  \<open>allowed_file\<close> rejects.
\<close>

theorem upload_file_rejections:
  "upload_file secure_filename read_pdf read_docx \<lparr>request_method = POST, files = []\<rparr>
     = Inr (Some ''No file part'')
   \<and> upload_file secure_filename read_pdf read_docx
       \<lparr>request_method = POST, files = [(''file'', \<lparr>filename = [], content = c\<rparr>)]\<rparr>
     = Inr (Some ''No selected file'')
   \<and> upload_file secure_filename read_pdf read_docx
       \<lparr>request_method = POST, files = [(''file'', \<lparr>filename = ''image.png'', content = c\<rparr>)]\<rparr>
     = Inr None"
proof -
  have "allowed_file ''image.png'' = Inr False" by code_simp
  then show ?thesis by (simp add: upload_file_def render_def)
qed

end
